theory Spec2Isabelle
  imports Main
begin

section \<open>Data model (main.go, lines 14-31)\<close>

text \<open>
  Go's \<open>int\<close> is modelled by \<open>int\<close>. Every counter of the program is bounded by
  the loop variable of the aggregation loop, which itself stays below \<open>Requests\<close>,
  so no arithmetic of the program can wrap.
  \<open>error\<close> is an interface value: \<open>None\<close> is \<open>nil\<close>, \<open>Some msg\<close> a non-nil error.
  \<open>time.Duration\<close> is a count of nanoseconds.
\<close>

record Config =
  URL :: string
  Requests :: int
  Concurrency :: int

record Result =
  StatusCode :: int
  Duration :: int
  Error :: "string option"

record Report =
  TotalTime :: int
  TotalRequests :: int
  SuccessRequests :: int
  StatusCodes :: "int \<rightharpoonup> int"

section \<open>parseFlags (lines 33-55)\<close>

text \<open>
  The arguments are the three flag values after \<open>flag.Parse()\<close> has returned
  (defaults: the empty string, 0 and 0). The three errors are the three
  \<open>fmt.Errorf\<close> values, in the order of the checks.
\<close>

datatype config_error = UrlRequired | RequestsNotPositive | ConcurrencyNotPositive

definition parseFlags :: "string \<Rightarrow> int \<Rightarrow> int \<Rightarrow> config_error + Config" where
  "parseFlags url requests concurrency =
     (if url = [] then Inl UrlRequired
      else if requests \<le> 0 then Inl RequestsNotPositive
      else if concurrency \<le> 0 then Inl ConcurrencyNotPositive
      else if concurrency > requests
        then Inr \<lparr>URL = url, Requests = requests, Concurrency = requests\<rparr>
        else Inr \<lparr>URL = url, Requests = requests, Concurrency = concurrency\<rparr>)"

section \<open>The request of one ticket (worker, lines 67-86)\<close>

text \<open>
  What the HTTP library does for one ticket is the environment's choice:
  \<open>http.NewRequestWithContext\<close> fails, or \<open>client.Do\<close> fails, or it returns a
  response with some status code. Each outcome carries the elapsed time that
  \<open>time.Since(startTime)\<close> reads on that path.
\<close>

datatype http_outcome =
    NewRequestFailed string int
  | DoFailed string int
  | Response int int

text \<open>The \<open>Result\<close> literal the worker builds on each path; an omitted field is
  the zero value of its type.\<close>

fun worker_result :: "http_outcome \<Rightarrow> Result" where
  "worker_result (NewRequestFailed err d) = \<lparr>StatusCode = 0, Duration = d, Error = Some err\<rparr>"
| "worker_result (DoFailed err d) = \<lparr>StatusCode = 0, Duration = d, Error = Some err\<rparr>"
| "worker_result (Response code d) = \<lparr>StatusCode = code, Duration = d, Error = None\<rparr>"

section \<open>The body of the aggregation loop (runLoadTest, lines 126-141)\<close>

text \<open>Reading a Go map at an absent key gives the zero value.\<close>

definition map_get :: "(int \<rightharpoonup> int) \<Rightarrow> int \<Rightarrow> int" where
  "map_get m k = (case m k of None \<Rightarrow> 0 | Some v \<Rightarrow> v)"

text \<open>\<open>m[k]++\<close>\<close>

definition map_incr :: "(int \<rightharpoonup> int) \<Rightarrow> int \<Rightarrow> (int \<rightharpoonup> int)" where
  "map_incr m k = m(k \<mapsto> map_get m k + 1)"

definition new_report :: Report where
  "new_report = \<lparr>TotalTime = 0, TotalRequests = 0, SuccessRequests = 0, StatusCodes = Map.empty\<rparr>"

definition aggregate :: "Report \<Rightarrow> Result \<Rightarrow> Report" where
  "aggregate report result =
     (let report = report\<lparr>TotalRequests := TotalRequests report + 1\<rparr> in
      if Error result \<noteq> None
      then report\<lparr>StatusCodes := map_incr (StatusCodes report) 0\<rparr>
      else
        (let report = report\<lparr>StatusCodes := map_incr (StatusCodes report) (StatusCode result)\<rparr> in
         if StatusCode result = 200
         then report\<lparr>SuccessRequests := SuccessRequests report + 1\<rparr>
         else report))"

text \<open>The loop body applied to the results in the order they are received.\<close>

definition aggregate_all :: "Result list \<Rightarrow> Report" where
  "aggregate_all rs = foldl aggregate new_report rs"

text \<open>The sum of all values of the histogram, and of those at a key other than 200.\<close>

definition codes_total :: "(int \<rightharpoonup> int) \<Rightarrow> int" where
  "codes_total m = (\<Sum>k \<in> dom m. map_get m k)"

definition codes_not_200 :: "(int \<rightharpoonup> int) \<Rightarrow> int" where
  "codes_not_200 m = (\<Sum>k \<in> dom m - {200}. map_get m k)"

definition report_inv :: "Report \<Rightarrow> bool" where
  "report_inv rep \<longleftrightarrow>
     finite (dom (StatusCodes rep)) \<and>
     codes_total (StatusCodes rep) = TotalRequests rep \<and>
     SuccessRequests rep = map_get (StatusCodes rep) 200 \<and>
     TotalRequests rep = SuccessRequests rep + codes_not_200 (StatusCodes rep)"

section \<open>Formatting (the \<open>%d\<close> verb of fmt.Printf)\<close>

definition digit_char :: "nat \<Rightarrow> char" where
  "digit_char n = char_of (48 + n)"

fun dec_nat :: "nat \<Rightarrow> string" where
  "dec_nat n = (if n < 10 then [digit_char n] else dec_nat (n div 10) @ [digit_char (n mod 10)])"

declare dec_nat.simps [simp del]

definition fmt_d :: "int \<Rightarrow> string" where
  "fmt_d i = (if i < 0 then CHR ''-'' # dec_nat (nat (- i)) else dec_nat (nat i))"

definition newline :: string where
  "newline = [CHR 0x0A]"

text \<open>Lines 93-97: what runLoadTest prints before it starts any goroutine, one
  element per print call (the e with circumflex is two bytes in UTF-8).\<close>

definition header :: "Config \<Rightarrow> string list" where
  "header cfg =
     [''Iniciando teste de carga...'' @ newline,
      ''URL: '' @ URL cfg @ newline,
      ''Total de requests: '' @ fmt_d (Requests cfg) @ newline,
      ''Concorr'' @ [CHR 0xC3, CHR 0xAA] @ ''ncia: '' @ fmt_d (Concurrency cfg) @ newline,
      newline]"

text \<open>Line 144, with \<open>n = i + 1\<close>.\<close>

definition progress_line :: "int \<Rightarrow> int \<Rightarrow> string" where
  "progress_line n requests =
     ''Progress: '' @ fmt_d n @ ''/'' @ fmt_d requests @ '' requests completed'' @ newline"

text \<open>Go's \<open>%\<close> truncates towards zero: the remainder has the sign of the dividend.\<close>

definition go_rem :: "int \<Rightarrow> int \<Rightarrow> int" where
  "go_rem a b = (if a < 0 then - ((- a) mod \<bar>b\<bar>) else a mod \<bar>b\<bar>)"

text \<open>Lines 143-145: what iteration \<open>i\<close> of the aggregation loop prints.\<close>

definition progress :: "Config \<Rightarrow> int \<Rightarrow> string list" where
  "progress cfg i =
     (if go_rem (i + 1) 100 = 0 \<or> i + 1 = Requests cfg
      then [progress_line (i + 1) (Requests cfg)] else [])"

section \<open>Channels\<close>

text \<open>
  A buffered Go channel: a FIFO buffer, its capacity and the closed flag. A send
  blocks while the buffer is full and panics on a closed channel; a receive
  takes the oldest value, blocks on an empty open channel, and on an empty
  closed channel returns at once with \<open>ok = false\<close>; closing twice panics.
  Both channels of the program have capacity \<open>Requests > 0\<close>, so the
  rendezvous of an unbuffered channel never arises.
\<close>

record 'a chan =
  chan_buf :: "'a list"
  chan_cap :: int
  chan_closed :: bool

text \<open>The channel that \<open>make(chan T, n)\<close> returns when it succeeds.\<close>

definition new_chan :: "int \<Rightarrow> 'a chan" where
  "new_chan n = \<lparr>chan_buf = [], chan_cap = n, chan_closed = False\<rparr>"

text \<open>
  \<open>make(chan T, n)\<close> allocates the buffer of \<open>n\<close> elements at once and panics
  (\<open>makechan: size out of range\<close>) when \<open>n\<close> is negative, when the size of the
  buffer in bytes overflows a machine word, or when it is more than the runtime
  allocates. That last bound is not in this repository: it is the parameter
  \<open>lim\<close>, in bytes (at most the runtime's \<open>maxAlloc\<close>, less where memory is
  short). \<open>None\<close> is the panic. Words have 64 bits: an \<open>int\<close> takes 8 bytes and a
  \<open>Result\<close> (an \<open>int\<close>, a \<open>time.Duration\<close> and an interface value of two words)
  takes 32.
\<close>

definition int_bytes :: int where
  "int_bytes = 8"

definition Result_bytes :: int where
  "Result_bytes = 32"

definition make_chan :: "int \<Rightarrow> int \<Rightarrow> int \<Rightarrow> 'a chan option" where
  "make_chan lim elem_bytes n =
     (if n < 0 \<or> 2 ^ 64 \<le> elem_bytes * n \<or> lim < elem_bytes * n then None
      else Some (new_chan n))"

datatype 'a send_result = Sent "'a chan" | SendBlocks | SendPanics

datatype 'a recv_result = Received 'a "'a chan" | RecvClosed | RecvBlocks

definition chan_send :: "'a chan \<Rightarrow> 'a \<Rightarrow> 'a send_result" where
  "chan_send c v =
     (if chan_closed c then SendPanics
      else if int (length (chan_buf c)) < chan_cap c then Sent (c\<lparr>chan_buf := chan_buf c @ [v]\<rparr>)
      else SendBlocks)"

definition chan_recv :: "'a chan \<Rightarrow> 'a recv_result" where
  "chan_recv c =
     (case chan_buf c of
        v # vs \<Rightarrow> Received v (c\<lparr>chan_buf := vs\<rparr>)
      | [] \<Rightarrow> if chan_closed c then RecvClosed else RecvBlocks)"

text \<open>\<open>None\<close>: close of a closed channel, a panic.\<close>

definition chan_close :: "'a chan \<Rightarrow> 'a chan option" where
  "chan_close c = (if chan_closed c then None else Some (c\<lparr>chan_closed := True\<rparr>))"

section \<open>The goroutines of runLoadTest (lines 57-155)\<close>

text \<open>
  The program is a set of goroutines that interleave. Each goroutine is a
  program counter; a step of one goroutine is one channel operation, one call
  of the HTTP library or one operation on the context or the wait group. Which
  goroutine moves, which ready case a \<open>select\<close> takes and what the HTTP library
  answers is the event; a step that the goroutine cannot take now (it is
  blocked, or it is not at that statement) is \<open>None\<close>.
  A call of the HTTP library always returns (the client has a timeout of 30
  seconds), with whatever outcome.

  A worker (lines 57-90) is at its \<open>select\<close>, or between lines 67 and 82 with a
  ticket, or at one of the three sends with the \<open>Result\<close> it built, or it has
  returned.
\<close>

datatype worker_pc = AtSelect | InRequest | Sending Result | Returned

text \<open>The producer of lines 119-124: not yet started, at the head of its loop
  with loop variable \<open>i\<close>, or returned (after the deferred \<open>close(jobs)\<close>).\<close>

datatype producer_pc = NotStarted | Producing int | ProducerDone

text \<open>
  The goroutine of runLoadTest: in the loop of lines 110-116 with loop variable
  \<open>i\<close>; in the loop of lines 130-146 with loop variable \<open>i\<close>; at \<open>wg.Wait()\<close>
  (line 151); at \<open>close(results)\<close> (line 152); returned.
\<close>

datatype main_pc = SpawnWorkers int | Collect int | Wait | CloseResults | Finished

text \<open>
  The last three fields are history variables: they record what has happened
  on the channels and are read by no step.
\<close>

record state =
  jobs :: "int chan"
  results :: "Result chan"
  cancelled :: bool
  wg :: int
  workers :: "worker_pc list"
  producer :: producer_pc
  mainpc :: main_pc
  report :: Report
  stdout :: "string list"
  panicked :: bool
  jobs_sent :: "int list"
  tickets_taken :: nat
  results_sent :: nat

text \<open>The state of runLoadTest at line 109, with the two channels it has made.\<close>

definition state0 :: "Config \<Rightarrow> int chan \<Rightarrow> Result chan \<Rightarrow> state" where
  "state0 cfg j r =
     \<lparr>jobs = j, results = r,
      cancelled = False, wg = 0, workers = [], producer = NotStarted,
      mainpc = SpawnWorkers 0, report = new_report, stdout = header cfg,
      panicked = False, jobs_sent = [], tickets_taken = 0, results_sent = 0\<rparr>"

text \<open>That state when both \<open>make\<close> calls have succeeded.\<close>

definition init :: "Config \<Rightarrow> state" where
  "init cfg = state0 cfg (new_chan (Requests cfg)) (new_chan (Requests cfg))"

datatype worker_event = CtxDone | JobsRecv | Http http_outcome | Send

text \<open>\<open>Main t\<close>: the goroutine of runLoadTest moves, and the clock reads \<open>t\<close> since
  \<open>startTime\<close>.\<close>

datatype event = Main int | Producer | Worker nat worker_event

text \<open>Lines 131-145: one received \<open>Result\<close> in iteration \<open>i\<close>.\<close>

definition collect_one :: "Config \<Rightarrow> int \<Rightarrow> Result \<Rightarrow> Result chan \<Rightarrow> state \<Rightarrow> state" where
  "collect_one cfg i r c s =
     s\<lparr>results := c, report := aggregate (report s) r,
       stdout := stdout s @ progress cfg i, mainpc := Collect (i + 1)\<rparr>"

definition zero_result :: Result where
  "zero_result = \<lparr>StatusCode = 0, Duration = 0, Error = None\<rparr>"

definition main_step :: "Config \<Rightarrow> int \<Rightarrow> state \<Rightarrow> state option" where
  "main_step cfg elapsed s =
     (case mainpc s of
        SpawnWorkers i \<Rightarrow>
          if i < Concurrency cfg
          then Some (s\<lparr>wg := wg s + 1, workers := workers s @ [AtSelect],
                       mainpc := SpawnWorkers (i + 1)\<rparr>)
          else Some (s\<lparr>producer := Producing 0, report := new_report, mainpc := Collect 0\<rparr>)
      | Collect i \<Rightarrow>
          if i < Requests cfg
          then (case chan_recv (results s) of
                  RecvBlocks \<Rightarrow> None
                | RecvClosed \<Rightarrow> Some (collect_one cfg i zero_result (results s) s)
                | Received r c \<Rightarrow> Some (collect_one cfg i r c s))
          else Some (s\<lparr>report := (report s)\<lparr>TotalTime := elapsed\<rparr>,
                       cancelled := True, mainpc := Wait\<rparr>)
      | Wait \<Rightarrow> if wg s = 0 then Some (s\<lparr>mainpc := CloseResults\<rparr>) else None
      | CloseResults \<Rightarrow>
          (case chan_close (results s) of
             None \<Rightarrow> Some (s\<lparr>panicked := True\<rparr>)
           | Some c \<Rightarrow> Some (s\<lparr>results := c, mainpc := Finished\<rparr>))
      | Finished \<Rightarrow> None)"

definition producer_step :: "Config \<Rightarrow> state \<Rightarrow> state option" where
  "producer_step cfg s =
     (case producer s of
        NotStarted \<Rightarrow> None
      | ProducerDone \<Rightarrow> None
      | Producing i \<Rightarrow>
          if i < Requests cfg
          then (case chan_send (jobs s) i of
                  SendBlocks \<Rightarrow> None
                | SendPanics \<Rightarrow> Some (s\<lparr>panicked := True\<rparr>)
                | Sent c \<Rightarrow> Some (s\<lparr>jobs := c, producer := Producing (i + 1),
                                      jobs_sent := jobs_sent s @ [i]\<rparr>))
          else (case chan_close (jobs s) of
                  None \<Rightarrow> Some (s\<lparr>panicked := True\<rparr>)
                | Some c \<Rightarrow> Some (s\<lparr>jobs := c, producer := ProducerDone\<rparr>)))"

text \<open>A worker returns (line 61 or 64) and its deferred \<open>wg.Done()\<close> runs, which
  panics on a negative counter.\<close>

definition worker_return :: "nat \<Rightarrow> state \<Rightarrow> state" where
  "worker_return k s =
     (if wg s - 1 < 0 then s\<lparr>workers := (workers s)[k := Returned], panicked := True\<rparr>
      else s\<lparr>workers := (workers s)[k := Returned], wg := wg s - 1\<rparr>)"

definition worker_step :: "nat \<Rightarrow> worker_event \<Rightarrow> state \<Rightarrow> state option" where
  "worker_step k ev s =
     (if length (workers s) \<le> k then None
      else
        (case ev of
           CtxDone \<Rightarrow>
             if workers s ! k = AtSelect \<and> cancelled s then Some (worker_return k s) else None
         | JobsRecv \<Rightarrow>
             if workers s ! k = AtSelect
             then (case chan_recv (jobs s) of
                     RecvBlocks \<Rightarrow> None
                   | RecvClosed \<Rightarrow> Some (worker_return k s)
                   | Received t c \<Rightarrow>
                       Some (s\<lparr>jobs := c, workers := (workers s)[k := InRequest],
                               tickets_taken := tickets_taken s + 1\<rparr>))
             else None
         | Http out \<Rightarrow>
             if workers s ! k = InRequest
             then Some (s\<lparr>workers := (workers s)[k := Sending (worker_result out)]\<rparr>)
             else None
         | Send \<Rightarrow>
             (case workers s ! k of
                Sending r \<Rightarrow>
                  (case chan_send (results s) r of
                     SendBlocks \<Rightarrow> None
                   | SendPanics \<Rightarrow> Some (s\<lparr>panicked := True\<rparr>)
                   | Sent c \<Rightarrow>
                       Some (s\<lparr>results := c, workers := (workers s)[k := AtSelect],
                               results_sent := results_sent s + 1\<rparr>))
              | _ \<Rightarrow> None)))"

text \<open>A panic ends the process: nothing moves after it.\<close>

definition step :: "Config \<Rightarrow> event \<Rightarrow> state \<Rightarrow> state option" where
  "step cfg e s =
     (if panicked s then None
      else
        (case e of
           Main t \<Rightarrow> main_step cfg t s
         | Producer \<Rightarrow> producer_step cfg s
         | Worker k ev \<Rightarrow> worker_step k ev s))"

fun run :: "Config \<Rightarrow> event list \<Rightarrow> state \<Rightarrow> state option" where
  "run cfg [] s = Some s"
| "run cfg (e # es) s = (case step cfg e s of None \<Rightarrow> None | Some s' \<Rightarrow> run cfg es s')"

text \<open>
  The state runLoadTest is in after the events \<open>es\<close>. \<open>None\<close>: there is no
  such state, because one of the two \<open>make\<close> calls of lines 106-107 panics
  (then there is none for any \<open>es\<close>, the empty list too), or because the events
  cannot happen in that order.
\<close>

definition runLoadTest :: "int \<Rightarrow> Config \<Rightarrow> event list \<Rightarrow> state option" where
  "runLoadTest lim cfg es =
     (case make_chan lim int_bytes (Requests cfg) of
        None \<Rightarrow> None
      | Some j \<Rightarrow>
          (case make_chan lim Result_bytes (Requests cfg) of
             None \<Rightarrow> None
           | Some r \<Rightarrow> run cfg es (state0 cfg j r)))"

text \<open>Lines 184-194: main stops with the configuration error before it calls
  runLoadTest.\<close>

definition main_go ::
  "int \<Rightarrow> string \<Rightarrow> int \<Rightarrow> int \<Rightarrow> event list \<Rightarrow> config_error + state option" where
  "main_go lim url requests concurrency es =
     (case parseFlags url requests concurrency of
        Inl err \<Rightarrow> Inl err
      | Inr config \<Rightarrow> Inr (runLoadTest lim config es))"

definition valid :: "Config \<Rightarrow> bool" where
  "valid cfg \<longleftrightarrow> URL cfg \<noteq> [] \<and> 0 < Requests cfg \<and> 0 < Concurrency cfg"

text \<open>The buffer of \<open>results\<close>, the larger of the two, is within what \<open>make\<close>
  allocates.\<close>

definition channels_fit :: "int \<Rightarrow> Config \<Rightarrow> bool" where
  "channels_fit lim cfg \<longleftrightarrow>
     Result_bytes * Requests cfg \<le> lim \<and> Result_bytes * Requests cfg < 2 ^ 64"

section \<open>Invariants of the run\<close>

text \<open>
  \<open>in_flight\<close> counts the workers that hold a ticket (between the receive on
  \<open>jobs\<close> and the send on \<open>results\<close>), \<open>running\<close> those that have not returned.
\<close>

fun busy :: "worker_pc \<Rightarrow> nat" where
  "busy InRequest = 1"
| "busy (Sending r) = 1"
| "busy AtSelect = 0"
| "busy Returned = 0"

fun live :: "worker_pc \<Rightarrow> nat" where
  "live Returned = 0"
| "live AtSelect = 1"
| "live InRequest = 1"
| "live (Sending r) = 1"

definition in_flight :: "state \<Rightarrow> nat" where
  "in_flight s = sum_list (map busy (workers s))"

definition running :: "state \<Rightarrow> nat" where
  "running s = sum_list (map live (workers s))"

text \<open>What holds at each statement of runLoadTest: the bounds of its loop
  variables, the number of workers started, the results collected, and when the
  context is cancelled and \<open>results\<close> closed.\<close>

definition main_inv :: "Config \<Rightarrow> state \<Rightarrow> bool" where
  "main_inv cfg s \<longleftrightarrow>
     (case mainpc s of
        SpawnWorkers i \<Rightarrow>
          0 \<le> i \<and> i \<le> Concurrency cfg \<and> int (length (workers s)) = i \<and>
          TotalRequests (report s) = 0 \<and> producer s = NotStarted \<and>
          \<not> cancelled s \<and> \<not> chan_closed (results s)
      | Collect i \<Rightarrow>
          0 \<le> i \<and> i \<le> Requests cfg \<and> int (length (workers s)) = Concurrency cfg \<and>
          TotalRequests (report s) = i \<and> producer s \<noteq> NotStarted \<and>
          \<not> cancelled s \<and> \<not> chan_closed (results s)
      | Wait \<Rightarrow>
          int (length (workers s)) = Concurrency cfg \<and>
          TotalRequests (report s) = Requests cfg \<and> producer s \<noteq> NotStarted \<and>
          cancelled s \<and> \<not> chan_closed (results s)
      | CloseResults \<Rightarrow>
          int (length (workers s)) = Concurrency cfg \<and>
          TotalRequests (report s) = Requests cfg \<and> producer s \<noteq> NotStarted \<and>
          cancelled s \<and> \<not> chan_closed (results s) \<and> wg s = 0
      | Finished \<Rightarrow>
          int (length (workers s)) = Concurrency cfg \<and>
          TotalRequests (report s) = Requests cfg \<and> producer s \<noteq> NotStarted \<and>
          cancelled s \<and> chan_closed (results s) \<and> wg s = 0)"

text \<open>What holds at each statement of the producer: the tickets sent so far
  are \<open>0, ..., i - 1\<close>, and \<open>jobs\<close> is closed exactly when it has returned.\<close>

definition producer_inv :: "Config \<Rightarrow> state \<Rightarrow> bool" where
  "producer_inv cfg s \<longleftrightarrow>
     (case producer s of
        NotStarted \<Rightarrow> jobs_sent s = [] \<and> \<not> chan_closed (jobs s)
      | Producing i \<Rightarrow>
          0 \<le> i \<and> i \<le> Requests cfg \<and> jobs_sent s = [0..i - 1] \<and> \<not> chan_closed (jobs s)
      | ProducerDone \<Rightarrow> jobs_sent s = [0..Requests cfg - 1] \<and> chan_closed (jobs s))"

text \<open>
  Nothing is lost or duplicated: a ticket sent is taken or in the buffer of
  \<open>jobs\<close>; a ticket taken is with its worker or has become one Result sent; a
  Result sent is in the buffer of \<open>results\<close> or collected. The wait group counts
  the workers that have not returned, nothing has panicked, and a worker has
  returned only if the context is cancelled or \<open>jobs\<close> is closed and empty.
\<close>

definition count_inv :: "Config \<Rightarrow> state \<Rightarrow> bool" where
  "count_inv cfg s \<longleftrightarrow>
     chan_cap (jobs s) = Requests cfg \<and> chan_cap (results s) = Requests cfg \<and>
     length (jobs_sent s) = tickets_taken s + length (chan_buf (jobs s)) \<and>
     tickets_taken s = results_sent s + in_flight s \<and>
     int (results_sent s) = int (length (chan_buf (results s))) + TotalRequests (report s) \<and>
     wg s = int (running s) \<and> \<not> panicked s \<and>
     (running s = length (workers s) \<or> cancelled s \<or>
        (chan_closed (jobs s) \<and> chan_buf (jobs s) = []))"

text \<open>The output so far is the header and what the iterations so far printed.\<close>

definition stdout_inv :: "Config \<Rightarrow> state \<Rightarrow> bool" where
  "stdout_inv cfg s \<longleftrightarrow>
     stdout s = header cfg @ concat (map (progress cfg) [0..TotalRequests (report s) - 1])"

definition invariant :: "Config \<Rightarrow> state \<Rightarrow> bool" where
  "invariant cfg s \<longleftrightarrow> main_inv cfg s \<and> producer_inv cfg s \<and> count_inv cfg s \<and> stdout_inv cfg s
     \<and> report_inv (report s)"

text \<open>Every Result in \<open>results\<close> or about to be sent has StatusCode 0 if it has
  an Error.\<close>

definition status_zero_on_error :: "Result \<Rightarrow> bool" where
  "status_zero_on_error r \<longleftrightarrow> Error r = None \<or> StatusCode r = 0"

definition results_inv :: "state \<Rightarrow> bool" where
  "results_inv s \<longleftrightarrow>
     (\<forall>r \<in> set (chan_buf (results s)). status_zero_on_error r) \<and>
     (\<forall>r. Sending r \<in> set (workers s) \<longrightarrow> status_zero_on_error r)"





section \<open>Example runs\<close>

text \<open>The examples run with the address space of the heap on linux/amd64 as the
  bound of \<open>make\<close>: no runtime allocates more.\<close>

definition lim48 :: int where
  "lim48 = 2 ^ 48"

text \<open>One request asked of five workers: what parseFlags makes of
  \<open>--requests=1 --concurrency=5\<close>, a complete run of it, and the state it ends in.\<close>

definition cfg1 :: Config where
  "cfg1 = \<lparr>URL = ''http://localhost:8080'', Requests = 1, Concurrency = 1\<rparr>"

definition sched1 :: "event list" where
  "sched1 =
     [Main 0, Main 0, Producer, Worker 0 JobsRecv, Worker 0 (Http (Response 200 5)),
      Worker 0 Send, Main 0, Producer, Main 9, Worker 0 CtxDone, Main 0, Main 0]"

definition final1 :: state where
  "final1 =
     \<lparr>jobs = \<lparr>chan_buf = [], chan_cap = 1, chan_closed = True\<rparr>,
      results = \<lparr>chan_buf = [], chan_cap = 1, chan_closed = True\<rparr>,
      cancelled = True, wg = 0, workers = [Returned], producer = ProducerDone,
      mainpc = Finished,
      report = \<lparr>TotalTime = 9, TotalRequests = 1, SuccessRequests = 1,
                 StatusCodes = [200 \<mapsto> 1]\<rparr>,
      stdout = header cfg1 @ [progress_line 1 1],
      panicked = False, jobs_sent = [0], tickets_taken = 1, results_sent = 1\<rparr>"

text \<open>Two requests on two workers, one answered 200 and one timed out; the
  failed one is collected first.\<close>

definition cfg2 :: Config where
  "cfg2 = \<lparr>URL = ''http://localhost:8080'', Requests = 2, Concurrency = 2\<rparr>"

definition sched2 :: "event list" where
  "sched2 =
     [Main 0, Main 0, Main 0, Producer, Producer,
      Worker 0 JobsRecv, Worker 1 JobsRecv,
      Worker 1 (Http (DoFailed ''timeout'' 30)), Worker 0 (Http (Response 200 5)),
      Worker 1 Send, Main 0, Worker 0 Send, Main 0,
      Producer, Main 42, Worker 0 CtxDone, Worker 1 JobsRecv, Main 0, Main 0]"

definition final2 :: state where
  "final2 =
     \<lparr>jobs = \<lparr>chan_buf = [], chan_cap = 2, chan_closed = True\<rparr>,
      results = \<lparr>chan_buf = [], chan_cap = 2, chan_closed = True\<rparr>,
      cancelled = True, wg = 0, workers = [Returned, Returned], producer = ProducerDone,
      mainpc = Finished,
      report = \<lparr>TotalTime = 42, TotalRequests = 2, SuccessRequests = 1,
                 StatusCodes = [0 \<mapsto> 1, 200 \<mapsto> 1]\<rparr>,
      stdout = header cfg2 @ [progress_line 2 2],
      panicked = False, jobs_sent = [0, 1], tickets_taken = 2, results_sent = 2\<rparr>"

text \<open>A server that answers with the status line \<open>HTTP/1.1 000\<close>: the run up to
  the worker's send, and the state after it.\<close>

definition sched_zero :: "event list" where
  "sched_zero =
     [Main 0, Main 0, Producer, Worker 0 JobsRecv, Worker 0 (Http (Response 0 7)),
      Worker 0 Send]"

definition after_zero :: state where
  "after_zero =
     \<lparr>jobs = \<lparr>chan_buf = [], chan_cap = 1, chan_closed = False\<rparr>,
      results = \<lparr>chan_buf = [\<lparr>StatusCode = 0, Duration = 7, Error = None\<rparr>], chan_cap = 1,
                  chan_closed = False\<rparr>,
      cancelled = False, wg = 1, workers = [AtSelect], producer = Producing 1,
      mainpc = Collect 0, report = new_report, stdout = header cfg1,
      panicked = False, jobs_sent = [0], tickets_taken = 1, results_sent = 1\<rparr>"





section \<open>Properties of the histogram\<close>

lemma map_get_incr: "map_get (map_incr m k) j = map_get m j + (if j = k then 1 else 0)"
  by (simp add: map_get_def map_incr_def)

lemma dom_map_incr: "dom (map_incr m k) = insert k (dom m)"
  by (simp add: map_incr_def)

lemma map_get_absent: "k \<notin> dom m \<Longrightarrow> map_get m k = 0"
  by (auto simp: map_get_def split: option.splits)

lemma sum_map_get_incr_other:
  assumes "finite A" "k \<notin> A"
  shows "(\<Sum>j \<in> A. map_get (map_incr m k) j) = (\<Sum>j \<in> A. map_get m j)"
  by (rule sum.cong) (use assms in \<open>auto simp: map_get_incr\<close>)

lemma sum_map_get_incr_insert:
  assumes "finite A" "k \<notin> dom m \<or> k \<in> A"
  shows "(\<Sum>j \<in> insert k A. map_get (map_incr m k) j) = (\<Sum>j \<in> A. map_get m j) + 1"
proof -
  have fin: "finite (A - {k})" using assms(1) by simp
  have "(\<Sum>j \<in> insert k A. map_get (map_incr m k) j)
      = map_get (map_incr m k) k + (\<Sum>j \<in> A - {k}. map_get (map_incr m k) j)"
    using assms(1) by (simp add: sum.insert_remove)
  also have "\<dots> = map_get m k + 1 + (\<Sum>j \<in> A - {k}. map_get m j)"
    using fin by (simp add: map_get_incr sum_map_get_incr_other)
  also have "\<dots> = (\<Sum>j \<in> A. map_get m j) + 1"
  proof (cases "k \<in> A")
    case True
    then show ?thesis using assms(1) by (simp add: sum.remove [of A k])
  next
    case False
    then have "k \<notin> dom m" using assms(2) by simp
    then show ?thesis using False by (simp add: map_get_absent)
  qed
  finally show ?thesis .
qed

lemma codes_total_incr:
  "finite (dom m) \<Longrightarrow> codes_total (map_incr m k) = codes_total m + 1"
  unfolding codes_total_def dom_map_incr
  by (rule sum_map_get_incr_insert) auto

lemma codes_not_200_incr:
  assumes "finite (dom m)"
  shows "codes_not_200 (map_incr m k) = codes_not_200 m + (if k = 200 then 0 else 1)"
proof (cases "k = 200")
  case True
  have "insert 200 (dom m) - {200} = dom m - {200}" by auto
  then show ?thesis
    using assms True
    by (simp add: codes_not_200_def dom_map_incr sum_map_get_incr_other)
next
  case False
  then have eq: "insert k (dom m) - {200} = insert k (dom m - {200})" by auto
  have "(\<Sum>j \<in> insert k (dom m - {200}). map_get (map_incr m k) j)
      = (\<Sum>j \<in> dom m - {200}. map_get m j) + 1"
    by (rule sum_map_get_incr_insert) (use assms False in auto)
  then show ?thesis using False by (simp add: codes_not_200_def dom_map_incr eq)
qed

lemma report_inv_new: "report_inv new_report"
  by (simp add: report_inv_def new_report_def codes_total_def codes_not_200_def map_get_def)

lemma report_inv_aggregate: "report_inv rep \<Longrightarrow> report_inv (aggregate rep r)"
  by (auto simp: report_inv_def aggregate_def Let_def codes_total_incr codes_not_200_incr
      map_get_incr dom_map_incr)

lemma report_inv_foldl: "report_inv rep \<Longrightarrow> report_inv (foldl aggregate rep rs)"
  by (induction rs arbitrary: rep) (simp_all add: report_inv_aggregate)

lemma TotalRequests_aggregate: "TotalRequests (aggregate rep r) = TotalRequests rep + 1"
  by (simp add: aggregate_def Let_def)

section \<open>Steps preserve the invariants\<close>

lemma sum_list_map_update:
  "k < length xs \<Longrightarrow>
   sum_list (map f (xs[k := y])) + f (xs ! k) = sum_list (map f xs) + (f y :: nat)"
  by (induction xs arbitrary: k) (auto split: nat.splits)



lemma upto_snoc: "0 \<le> i \<Longrightarrow> [0..i - 1] @ [i] = [0..i]"
  using upto_rec2 [of 0 i] by simp

lemma inv_init: "valid cfg \<Longrightarrow> invariant cfg (init cfg)"
  by (simp add: invariant_def main_inv_def producer_inv_def count_inv_def stdout_inv_def init_def
      state0_def new_chan_def valid_def in_flight_def running_def new_report_def report_inv_new [unfolded new_report_def])

lemma TotalRequests_new [simp]: "TotalRequests new_report = 0"
  by (simp add: new_report_def)

lemma upto_snoc_map:
  "0 \<le> i \<Longrightarrow> concat (map f [0..i - 1]) @ f i = concat (map f [0..i])"
  using upto_rec2 [of 0 i] by simp

lemma chan_recv_Received:
  "chan_recv c = Received v c' \<Longrightarrow>
   chan_buf c = v # chan_buf c' \<and> chan_cap c' = chan_cap c \<and> chan_closed c' = chan_closed c"
  by (auto simp: chan_recv_def split: list.splits if_splits)

lemma chan_recv_RecvClosed: "chan_recv c = RecvClosed \<Longrightarrow> chan_buf c = [] \<and> chan_closed c"
  by (auto simp: chan_recv_def split: list.splits if_splits)

lemma chan_send_Sent:
  "chan_send c v = Sent c' \<Longrightarrow>
   \<not> chan_closed c \<and> int (length (chan_buf c)) < chan_cap c \<and>
   chan_buf c' = chan_buf c @ [v] \<and> chan_cap c' = chan_cap c \<and> chan_closed c' = chan_closed c"
  by (auto simp: chan_send_def split: if_splits)

lemma chan_send_SendPanics: "chan_send c v = SendPanics \<Longrightarrow> chan_closed c"
  by (auto simp: chan_send_def split: if_splits)

lemma chan_close_Some:
  "chan_close c = Some c' \<Longrightarrow>
   \<not> chan_closed c \<and> chan_closed c' \<and> chan_buf c' = chan_buf c \<and> chan_cap c' = chan_cap c"
  by (auto simp: chan_close_def split: if_splits)

lemma chan_close_None: "chan_close c = None \<Longrightarrow> chan_closed c"
  by (auto simp: chan_close_def split: if_splits)

lemma main_step_cases:
  assumes "main_step cfg t s = Some s'"
  obtains
    (spawn) i where "mainpc s = SpawnWorkers i" "i < Concurrency cfg"
      "s' = s\<lparr>wg := wg s + 1, workers := workers s @ [AtSelect], mainpc := SpawnWorkers (i + 1)\<rparr>"
  | (start) i where "mainpc s = SpawnWorkers i" "\<not> i < Concurrency cfg"
      "s' = s\<lparr>producer := Producing 0, report := new_report, mainpc := Collect 0\<rparr>"
  | (recv) i r c where "mainpc s = Collect i" "i < Requests cfg"
      "chan_recv (results s) = Received r c" "s' = collect_one cfg i r c s"
  | (recv_closed) i where "mainpc s = Collect i" "i < Requests cfg"
      "chan_recv (results s) = RecvClosed" "s' = collect_one cfg i zero_result (results s) s"
  | (cancel) i where "mainpc s = Collect i" "\<not> i < Requests cfg"
      "s' = s\<lparr>report := (report s)\<lparr>TotalTime := t\<rparr>, cancelled := True, mainpc := Wait\<rparr>"
  | (joined) "mainpc s = Wait" "wg s = 0" "s' = s\<lparr>mainpc := CloseResults\<rparr>"
  | (close) c where "mainpc s = CloseResults" "chan_close (results s) = Some c"
      "s' = s\<lparr>results := c, mainpc := Finished\<rparr>"
  | (close_panic) "mainpc s = CloseResults" "chan_close (results s) = None"
      "s' = s\<lparr>panicked := True\<rparr>"
  using assms
  by (auto simp: main_step_def split: main_pc.splits if_splits recv_result.splits option.splits)

lemma producer_step_cases:
  assumes "producer_step cfg s = Some s'"
  obtains
    (send) i c where "producer s = Producing i" "i < Requests cfg"
      "chan_send (jobs s) i = Sent c"
      "s' = s\<lparr>jobs := c, producer := Producing (i + 1), jobs_sent := jobs_sent s @ [i]\<rparr>"
  | (send_panic) i where "producer s = Producing i" "i < Requests cfg"
      "chan_send (jobs s) i = SendPanics" "s' = s\<lparr>panicked := True\<rparr>"
  | (close) i c where "producer s = Producing i" "\<not> i < Requests cfg"
      "chan_close (jobs s) = Some c" "s' = s\<lparr>jobs := c, producer := ProducerDone\<rparr>"
  | (close_panic) i where "producer s = Producing i" "\<not> i < Requests cfg"
      "chan_close (jobs s) = None" "s' = s\<lparr>panicked := True\<rparr>"
  using assms
  by (auto simp: producer_step_def split: producer_pc.splits if_splits send_result.splits option.splits)

lemma worker_step_cases:
  assumes "worker_step k ev s = Some s'"
  obtains
    (ctx_done) "k < length (workers s)" "workers s ! k = AtSelect" "cancelled s"
      "s' = worker_return k s"
  | (exhausted) "k < length (workers s)" "workers s ! k = AtSelect"
      "chan_recv (jobs s) = RecvClosed" "s' = worker_return k s"
  | (ticket) t c where "k < length (workers s)" "workers s ! k = AtSelect"
      "chan_recv (jobs s) = Received t c"
      "s' = s\<lparr>jobs := c, workers := (workers s)[k := InRequest],
             tickets_taken := tickets_taken s + 1\<rparr>"
  | (http) out where "k < length (workers s)" "workers s ! k = InRequest"
      "s' = s\<lparr>workers := (workers s)[k := Sending (worker_result out)]\<rparr>"
  | (send) r c where "k < length (workers s)" "workers s ! k = Sending r"
      "chan_send (results s) r = Sent c"
      "s' = s\<lparr>results := c, workers := (workers s)[k := AtSelect],
             results_sent := results_sent s + 1\<rparr>"
  | (send_panic) r where "k < length (workers s)" "workers s ! k = Sending r"
      "chan_send (results s) r = SendPanics" "s' = s\<lparr>panicked := True\<rparr>"
  using assms
  by (auto simp: worker_step_def split: worker_event.splits if_splits recv_result.splits
      send_result.splits worker_pc.splits)

lemma producer_inv_frame:
  "producer s' = producer s \<Longrightarrow> jobs_sent s' = jobs_sent s \<Longrightarrow>
   chan_closed (jobs s') = chan_closed (jobs s) \<Longrightarrow> producer_inv cfg s \<Longrightarrow> producer_inv cfg s'"
  by (cases "producer s") (simp_all add: producer_inv_def)

lemma main_inv_frame:
  "main_inv cfg s \<Longrightarrow> mainpc s' = mainpc s \<Longrightarrow> length (workers s') = length (workers s) \<Longrightarrow>
   TotalRequests (report s') = TotalRequests (report s) \<Longrightarrow>
   producer s = NotStarted \<longleftrightarrow> producer s' = NotStarted \<Longrightarrow>
   cancelled s' = cancelled s \<Longrightarrow> chan_closed (results s') = chan_closed (results s) \<Longrightarrow>
   wg s' = wg s \<or> (wg s \<noteq> 0 \<and> mainpc s \<noteq> CloseResults \<and> mainpc s \<noteq> Finished) \<Longrightarrow>
   main_inv cfg s'"
  by (cases "mainpc s") (auto simp: main_inv_def)

lemma stdout_inv_frame:
  "stdout s' = stdout s \<Longrightarrow> TotalRequests (report s') = TotalRequests (report s) \<Longrightarrow>
   stdout_inv cfg s \<Longrightarrow> stdout_inv cfg s'"
  by (simp add: stdout_inv_def)

lemma main_step_inv:
  assumes v: "valid cfg" and i: "invariant cfg s" and st: "main_step cfg t s = Some s'"
  shows "invariant cfg s'"
proof -
  from i have mi: "main_inv cfg s" and pi: "producer_inv cfg s" and ci: "count_inv cfg s"
    and si: "stdout_inv cfg s" and ri: "report_inv (report s)"
    by (simp_all add: invariant_def)
  from st show ?thesis
  proof (cases rule: main_step_cases)
    case (spawn i)
    have "main_inv cfg s'" using mi spawn by (simp add: main_inv_def)
    moreover have "producer_inv cfg s'"
      using pi by (rule producer_inv_frame [rotated -1]) (simp_all add: spawn)
    moreover have "count_inv cfg s'"
      using ci mi spawn by (simp add: count_inv_def main_inv_def in_flight_def running_def)
    moreover have "stdout_inv cfg s'" using si spawn by (simp add: stdout_inv_def)
    ultimately show ?thesis using ri spawn by (simp add: invariant_def)
  next
    case (start i)
    have "main_inv cfg s'" using mi start v by (simp add: main_inv_def valid_def)
    moreover have "producer_inv cfg s'"
      using pi mi start v by (simp add: producer_inv_def main_inv_def valid_def)
    moreover have "count_inv cfg s'"
      using ci mi start by (simp add: count_inv_def main_inv_def in_flight_def running_def)
    moreover have "stdout_inv cfg s'" using si mi start by (simp add: stdout_inv_def main_inv_def)
    ultimately show ?thesis using start by (simp add: invariant_def report_inv_new)
  next
    case (recv i r c)
    note rc = chan_recv_Received [OF recv(3)]
    have "main_inv cfg s'"
      using mi recv(1,2) rc
      by (simp add: recv(4) collect_one_def main_inv_def TotalRequests_aggregate)
    moreover have "producer_inv cfg s'"
      using pi by (rule producer_inv_frame [rotated -1]) (simp_all add: recv(4) collect_one_def)
    moreover have "count_inv cfg s'"
      using ci rc
      by (simp add: recv(4) collect_one_def count_inv_def in_flight_def running_def
          TotalRequests_aggregate)
    moreover have "stdout_inv cfg s'"
      using si mi recv(1)
      by (simp add: recv(4) collect_one_def stdout_inv_def main_inv_def TotalRequests_aggregate
          upto_snoc_map)
    ultimately show ?thesis
      using ri by (simp add: invariant_def recv(4) collect_one_def report_inv_aggregate)
  next
    case (recv_closed i)
    then show ?thesis using mi chan_recv_RecvClosed [OF recv_closed(3)] by (simp add: main_inv_def)
  next
    case (cancel i)
    have "main_inv cfg s'" using mi cancel by (simp add: main_inv_def)
    moreover have "producer_inv cfg s'"
      using pi by (rule producer_inv_frame [rotated -1]) (simp_all add: cancel)
    moreover have "count_inv cfg s'"
      using ci cancel by (simp add: count_inv_def in_flight_def running_def)
    moreover have "stdout_inv cfg s'" using si cancel by (simp add: stdout_inv_def)
    moreover have "report_inv (report s')"
      using ri cancel by (simp add: report_inv_def)
    ultimately show ?thesis by (simp add: invariant_def)
  next
    case joined
    have "main_inv cfg s'" using mi joined by (simp add: main_inv_def)
    moreover have "producer_inv cfg s'"
      using pi by (rule producer_inv_frame [rotated -1]) (simp_all add: joined)
    moreover have "count_inv cfg s'"
      using ci joined by (simp add: count_inv_def in_flight_def running_def)
    moreover have "stdout_inv cfg s'" using si joined by (simp add: stdout_inv_def)
    ultimately show ?thesis using ri joined by (simp add: invariant_def)
  next
    case (close c)
    note cc = chan_close_Some [OF close(2)]
    have "main_inv cfg s'" using mi close(1,3) cc by (simp add: main_inv_def)
    moreover have "producer_inv cfg s'"
      using pi by (rule producer_inv_frame [rotated -1]) (simp_all add: close)
    moreover have "count_inv cfg s'"
      using ci close(1,3) cc by (simp add: count_inv_def in_flight_def running_def)
    moreover have "stdout_inv cfg s'" using si close by (simp add: stdout_inv_def)
    ultimately show ?thesis using ri close by (simp add: invariant_def)
  next
    case close_panic
    then show ?thesis using mi chan_close_None [OF close_panic(2)] by (simp add: main_inv_def)
  qed
qed

lemma producer_step_inv:
  assumes v: "valid cfg" and i: "invariant cfg s" and st: "producer_step cfg s = Some s'"
  shows "invariant cfg s'"
proof -
  from i have mi: "main_inv cfg s" and pi: "producer_inv cfg s" and ci: "count_inv cfg s"
    and si: "stdout_inv cfg s" and ri: "report_inv (report s)"
    by (simp_all add: invariant_def)
  from st show ?thesis
  proof (cases rule: producer_step_cases)
    case (send i c)
    note sc = chan_send_Sent [OF send(3)]
    have "main_inv cfg s'"
      using mi by (rule main_inv_frame) (simp_all add: send)
    moreover have "producer_inv cfg s'"
      using pi send(1,2) sc by (simp add: send(4) producer_inv_def upto_snoc)
    moreover have "count_inv cfg s'"
      using ci pi send(1) sc
      by (simp add: send(4) count_inv_def producer_inv_def in_flight_def running_def)
    moreover have "stdout_inv cfg s'"
      using si by (rule stdout_inv_frame [rotated -1]) (simp_all add: send)
    ultimately show ?thesis using ri send by (simp add: invariant_def)
  next
    case (send_panic i)
    then show ?thesis using pi chan_send_SendPanics [OF send_panic(3)] by (simp add: producer_inv_def)
  next
    case (close i c)
    note cc = chan_close_Some [OF close(3)]
    have "main_inv cfg s'"
      using mi by (rule main_inv_frame) (simp_all add: close)
    moreover have "producer_inv cfg s'"
      using pi close(1,2) cc by (simp add: close(4) producer_inv_def)
    moreover have "count_inv cfg s'"
      using ci pi close(1) cc
      by (auto simp: close(4) count_inv_def producer_inv_def in_flight_def running_def)
    moreover have "stdout_inv cfg s'"
      using si by (rule stdout_inv_frame [rotated -1]) (simp_all add: close)
    ultimately show ?thesis using ri close by (simp add: invariant_def)
  next
    case (close_panic i)
    then show ?thesis using pi chan_close_None [OF close_panic(3)] by (simp add: producer_inv_def)
  qed
qed

lemma live_le_running: "k < length (workers s) \<Longrightarrow> live (workers s ! k) \<le> running s"
  using elem_le_sum_list [of k "map live (workers s)"] by (simp add: running_def)

lemma worker_return_inv:
  assumes i: "invariant cfg s" and k: "k < length (workers s)" and at: "workers s ! k = AtSelect"
    and why: "cancelled s \<or> (chan_closed (jobs s) \<and> chan_buf (jobs s) = [])"
  shows "invariant cfg (worker_return k s)"
proof -
  from i have mi: "main_inv cfg s" and pi: "producer_inv cfg s" and ci: "count_inv cfg s"
    and si: "stdout_inv cfg s" and ri: "report_inv (report s)"
    by (simp_all add: invariant_def)
  define s' where "s' = s\<lparr>workers := (workers s)[k := Returned], wg := wg s - 1\<rparr>"
  have run1: "1 \<le> running s" using live_le_running [OF k] at by simp
  then have wg1: "1 \<le> wg s" using ci by (simp add: count_inv_def)
  then have eq: "worker_return k s = s'" by (simp add: worker_return_def s'_def)
  have pcs: "mainpc s \<noteq> CloseResults \<and> mainpc s \<noteq> Finished"
    using mi wg1 by (auto simp: main_inv_def)
  have busy': "sum_list (map busy ((workers s)[k := Returned])) = in_flight s"
    using sum_list_map_update [OF k, of busy Returned] at by (simp add: in_flight_def)
  have live': "Suc (sum_list (map live ((workers s)[k := Returned]))) = running s"
    using sum_list_map_update [OF k, of live Returned] at by (simp add: running_def)
  have "main_inv cfg s'"
    using mi by (rule main_inv_frame) (use wg1 pcs in \<open>simp_all add: s'_def\<close>)
  moreover have "producer_inv cfg s'"
    using pi by (rule producer_inv_frame [rotated -1]) (simp_all add: s'_def)
  moreover have "count_inv cfg s'"
    using ci why busy' live' wg1
    by (auto simp: s'_def count_inv_def in_flight_def running_def)
  moreover have "stdout_inv cfg s'"
    using si by (rule stdout_inv_frame [rotated -1]) (simp_all add: s'_def)
  ultimately show ?thesis using ri by (simp add: invariant_def eq) (simp add: s'_def)
qed

lemma worker_step_inv:
  assumes i: "invariant cfg s" and st: "worker_step k ev s = Some s'"
  shows "invariant cfg s'"
proof -
  from i have mi: "main_inv cfg s" and pi: "producer_inv cfg s" and ci: "count_inv cfg s"
    and si: "stdout_inv cfg s" and ri: "report_inv (report s)"
    by (simp_all add: invariant_def)
  from st show ?thesis
  proof (cases rule: worker_step_cases)
    case ctx_done
    then show ?thesis using worker_return_inv [OF i] by simp
  next
    case exhausted
    then show ?thesis
      using worker_return_inv [OF i] chan_recv_RecvClosed [OF exhausted(3)] by simp
  next
    case (ticket t c)
    note rc = chan_recv_Received [OF ticket(3)]
    have busy': "sum_list (map busy ((workers s)[k := InRequest])) = Suc (in_flight s)"
      using sum_list_map_update [OF ticket(1), of busy InRequest] ticket(2)
      by (simp add: in_flight_def)
    have live': "sum_list (map live ((workers s)[k := InRequest])) = running s"
      using sum_list_map_update [OF ticket(1), of live InRequest] ticket(2)
      by (simp add: running_def)
    have "main_inv cfg s'"
      using mi by (rule main_inv_frame) (simp_all add: ticket(4))
    moreover have "producer_inv cfg s'"
      using pi by (rule producer_inv_frame [rotated -1]) (simp_all add: ticket(4) rc)
    moreover have "count_inv cfg s'"
      using ci rc busy' live'
      by (auto simp: ticket(4) count_inv_def in_flight_def running_def)
    moreover have "stdout_inv cfg s'"
      using si by (rule stdout_inv_frame [rotated -1]) (simp_all add: ticket(4))
    ultimately show ?thesis using ri by (simp add: invariant_def) (simp add: ticket(4))
  next
    case (http out)
    let ?pc = "Sending (worker_result out)"
    have busy': "sum_list (map busy ((workers s)[k := ?pc])) = in_flight s"
      using sum_list_map_update [OF http(1), of busy ?pc] http(2)
      by (simp add: in_flight_def)
    have live': "sum_list (map live ((workers s)[k := ?pc])) = running s"
      using sum_list_map_update [OF http(1), of live ?pc] http(2)
      by (simp add: running_def)
    have "main_inv cfg s'"
      using mi by (rule main_inv_frame) (simp_all add: http(3))
    moreover have "producer_inv cfg s'"
      using pi by (rule producer_inv_frame [rotated -1]) (simp_all add: http(3))
    moreover have "count_inv cfg s'"
      using ci busy' live'
      by (auto simp: http(3) count_inv_def in_flight_def running_def)
    moreover have "stdout_inv cfg s'"
      using si by (rule stdout_inv_frame [rotated -1]) (simp_all add: http(3))
    ultimately show ?thesis using ri by (simp add: invariant_def) (simp add: http(3))
  next
    case (send r c)
    note sc = chan_send_Sent [OF send(3)]
    have busy': "Suc (sum_list (map busy ((workers s)[k := AtSelect]))) = in_flight s"
      using sum_list_map_update [OF send(1), of busy AtSelect] send(2)
      by (simp add: in_flight_def)
    have live': "sum_list (map live ((workers s)[k := AtSelect])) = running s"
      using sum_list_map_update [OF send(1), of live AtSelect] send(2)
      by (simp add: running_def)
    have "main_inv cfg s'"
      using mi by (rule main_inv_frame) (simp_all add: send(4) sc)
    moreover have "producer_inv cfg s'"
      using pi by (rule producer_inv_frame [rotated -1]) (simp_all add: send(4))
    moreover have "count_inv cfg s'"
      using ci sc busy' live'
      by (auto simp: send(4) count_inv_def in_flight_def running_def)
    moreover have "stdout_inv cfg s'"
      using si by (rule stdout_inv_frame [rotated -1]) (simp_all add: send(4))
    ultimately show ?thesis using ri by (simp add: invariant_def) (simp add: send(4))
  next
    case (send_panic r)
    have "1 \<le> running s" using live_le_running [OF send_panic(1)] send_panic(2) by simp
    then have "wg s \<noteq> 0" using ci by (simp add: count_inv_def)
    moreover have "mainpc s = Finished"
      using mi chan_send_SendPanics [OF send_panic(3)] by (cases "mainpc s") (simp_all add: main_inv_def)
    ultimately show ?thesis using mi by (simp add: main_inv_def)
  qed
qed

lemma step_inv:
  assumes "valid cfg" "invariant cfg s" "step cfg e s = Some s'"
  shows "invariant cfg s'"
proof (cases e)
  case (Main t)
  then show ?thesis using assms main_step_inv by (simp add: step_def split: if_splits)
next
  case Producer
  then show ?thesis using assms producer_step_inv by (simp add: step_def split: if_splits)
next
  case (Worker k ev)
  then show ?thesis using assms worker_step_inv by (simp add: step_def split: if_splits)
qed

lemma run_inv: "valid cfg \<Longrightarrow> invariant cfg s \<Longrightarrow> run cfg es s = Some s' \<Longrightarrow> invariant cfg s'"
proof (induction es arbitrary: s)
  case Nil
  then show ?case by simp
next
  case (Cons e es)
  from Cons.prems(3) obtain s1 where s1: "step cfg e s = Some s1" and r: "run cfg es s1 = Some s'"
    by (auto split: option.splits)
  have "invariant cfg s1" using Cons.prems(1,2) s1 by (rule step_inv)
  then show ?case using Cons.IH Cons.prems(1) r by blast
qed

lemma make_chan_Some: "make_chan lim b n = Some c \<Longrightarrow> c = new_chan n"
  by (simp add: make_chan_def split: if_splits)

lemma runLoadTest_run: "runLoadTest lim cfg es = Some s \<Longrightarrow> run cfg es (init cfg) = Some s"
  by (auto simp: runLoadTest_def init_def split: option.splits dest!: make_chan_Some)


lemma runLoadTest_unfit:
  assumes "valid cfg" "\<not> channels_fit lim cfg"
  shows "runLoadTest lim cfg es = None"
  using assms
  by (auto simp: runLoadTest_def make_chan_def channels_fit_def valid_def
      int_bytes_def Result_bytes_def split: option.splits)

lemma runLoadTest_inv:
  assumes "valid cfg" "runLoadTest lim cfg es = Some s"
  shows "invariant cfg s"
  using assms(1) inv_init [OF assms(1)] runLoadTest_run [OF assms(2)] by (rule run_inv)









lemma jobs_sent_le:
  assumes "valid cfg" "producer_inv cfg s"
  shows "int (length (jobs_sent s)) \<le> Requests cfg"
  using assms by (cases "producer s") (simp_all add: producer_inv_def valid_def)

lemma TotalRequests_nonneg:
  assumes "valid cfg" "main_inv cfg s"
  shows "0 \<le> TotalRequests (report s)"
  using assms by (cases "mainpc s") (simp_all add: main_inv_def valid_def)









section \<open>The example runs, evaluated\<close>

lemmas step_defs = runLoadTest_def init_def step_def main_step_def producer_step_def
  worker_step_def worker_return_def chan_send_def chan_recv_def chan_close_def make_chan_def
  state0_def new_chan_def int_bytes_def Result_bytes_def lim48_def
  collect_one_def aggregate_def new_report_def map_incr_def map_get_def progress_def go_rem_def

lemma valid1: "valid cfg1"
  by (simp add: valid_def cfg1_def)

lemma valid2: "valid cfg2"
  by (simp add: valid_def cfg2_def)

lemma run1: "runLoadTest lim48 cfg1 sched1 = Some final1"
  by (simp add: cfg1_def sched1_def final1_def step_defs)

lemma run2: "runLoadTest lim48 cfg2 sched2 = Some final2"
  by (simp add: cfg2_def sched2_def final2_def step_defs)

lemma run_zero: "runLoadTest lim48 cfg1 sched_zero = Some after_zero"
  by (simp add: cfg1_def sched_zero_def after_zero_def step_defs)

section \<open>The histogram of the report\<close>

lemma step_report_inv:
  assumes "report_inv (report s)" "step cfg e s = Some s'"
  shows "report_inv (report s')"
proof (cases e)
  case (Main t)
  then have "main_step cfg t s = Some s'" using assms(2) by (simp add: step_def split: if_splits)
  then show ?thesis
  proof (cases rule: main_step_cases)
    case (cancel i)
    then show ?thesis using assms(1) by (simp add: report_inv_def)
  qed (use assms(1) in \<open>simp_all add: collect_one_def report_inv_aggregate report_inv_new\<close>)
next
  case Producer
  then have "producer_step cfg s = Some s'" using assms(2) by (simp add: step_def split: if_splits)
  then show ?thesis by (cases rule: producer_step_cases) (use assms(1) in simp_all)
next
  case (Worker k ev)
  then have "worker_step k ev s = Some s'" using assms(2) by (simp add: step_def split: if_splits)
  then show ?thesis
    by (cases rule: worker_step_cases) (use assms(1) in \<open>simp_all add: worker_return_def\<close>)
qed

lemma run_report_inv:
  "report_inv (report s) \<Longrightarrow> run cfg es s = Some s' \<Longrightarrow> report_inv (report s')"
proof (induction es arbitrary: s)
  case Nil
  then show ?case by simp
next
  case (Cons e es)
  from Cons.prems(2) obtain s1 where s1: "step cfg e s = Some s1" and r: "run cfg es s1 = Some s'"
    by (auto split: option.splits)
  have "report_inv (report s1)" using Cons.prems(1) s1 by (rule step_report_inv)
  then show ?case using r by (rule Cons.IH)
qed

lemma TotalRequests_foldl:
  "TotalRequests (foldl aggregate rep rs) = TotalRequests rep + int (length rs)"
  by (induction rs arbitrary: rep) (simp_all add: TotalRequests_aggregate)

text \<open>
  C2. Whatever sequence of Results the aggregation loop has processed, the
  values of StatusCodes sum to TotalRequests (the number of Results processed),
  SuccessRequests is the count at key 200 (0 when the key is absent), and
  TotalRequests is SuccessRequests plus the counts at the keys other than 200.
  This holds of the loop body applied to any list of Results, hence after every
  iteration, and of the report in every state of every run of runLoadTest.
\<close>

theorem report_histogram_invariant:
  "codes_total (StatusCodes (aggregate_all rs)) = TotalRequests (aggregate_all rs) \<and>
   TotalRequests (aggregate_all rs) = int (length rs) \<and>
   SuccessRequests (aggregate_all rs) = map_get (StatusCodes (aggregate_all rs)) 200 \<and>
   TotalRequests (aggregate_all rs) =
     SuccessRequests (aggregate_all rs) + codes_not_200 (StatusCodes (aggregate_all rs)) \<and>
   (\<forall>lim cfg es s. runLoadTest lim cfg es = Some s \<longrightarrow>
      codes_total (StatusCodes (report s)) = TotalRequests (report s) \<and>
      SuccessRequests (report s) = map_get (StatusCodes (report s)) 200 \<and>
      TotalRequests (report s) =
        SuccessRequests (report s) + codes_not_200 (StatusCodes (report s)))"
proof -
  have "report_inv (aggregate_all rs)"
    unfolding aggregate_all_def by (rule report_inv_foldl [OF report_inv_new])
  moreover have "TotalRequests (aggregate_all rs) = int (length rs)"
    by (simp add: aggregate_all_def TotalRequests_foldl)
  moreover have "report_inv (report s)" if "runLoadTest lim cfg es = Some s" for lim cfg es s
    using runLoadTest_run [OF that]
    by (rule run_report_inv [rotated]) (simp add: init_def state0_def report_inv_new)
  ultimately show ?thesis by (simp add: report_inv_def)
qed

theorem report_histogram_invariant_witness:
  "runLoadTest lim48 cfg2 sched2 = Some final2 \<and>
   codes_total (StatusCodes (report final2)) = 2 \<and>
   map_get (StatusCodes (report final2)) 200 = 1 \<and>
   codes_not_200 (StatusCodes (report final2)) = 1"
proof -
  have "TotalRequests (report final2) = 2" "SuccessRequests (report final2) = 1"
    by (simp_all add: final2_def)
  then show ?thesis using report_histogram_invariant [of "[]"] run2 by simp
qed

text \<open>
  C3. One iteration of the loop on a Result \<open>r\<close> adds one to TotalRequests, adds
  one to the count at one key of StatusCodes (key 0 when Error is present, key
  StatusCode otherwise) and leaves every other key as it was, adds one to
  SuccessRequests exactly when Error is absent and StatusCode is 200, and
  changes nothing else of the Report.
\<close>

theorem aggregate_updates:
  "aggregate rep r =
     rep\<lparr>TotalRequests := TotalRequests rep + 1,
         SuccessRequests :=
           SuccessRequests rep + (if Error r = None \<and> StatusCode r = 200 then 1 else 0),
         StatusCodes := map_incr (StatusCodes rep) (if Error r \<noteq> None then 0 else StatusCode r)\<rparr> \<and>
   TotalTime (aggregate rep r) = TotalTime rep \<and>
   (\<forall>k. map_get (StatusCodes (aggregate rep r)) k =
      map_get (StatusCodes rep) k +
        (if k = (if Error r \<noteq> None then 0 else StatusCode r) then 1 else 0)) \<and>
   dom (StatusCodes (aggregate rep r)) =
     insert (if Error r \<noteq> None then 0 else StatusCode r) (dom (StatusCodes rep))"
  by (simp add: aggregate_def Let_def map_get_incr dom_map_incr)

theorem aggregate_updates_witness:
  "map_get (StatusCodes (aggregate new_report \<lparr>StatusCode = 404, Duration = 3, Error = None\<rparr>)) 404 = 1 \<and>
   map_get (StatusCodes (aggregate new_report \<lparr>StatusCode = 404, Duration = 3, Error = None\<rparr>)) 0 = 0 \<and>
   TotalTime (aggregate new_report \<lparr>StatusCode = 404, Duration = 3, Error = None\<rparr>) = 0"
  using aggregate_updates [of new_report "\<lparr>StatusCode = 404, Duration = 3, Error = None\<rparr>"]
  by (simp add: new_report_def map_get_def map_incr_def)

section \<open>The worker's Results\<close>

text \<open>
  C4, as stated: every Result a worker produces has Error present if and only
  if StatusCode is 0. A response whose own status code is 0 (Go's client accepts
  the status line \<open>HTTP/1.1 000\<close>) refutes it: the worker sends a Result with
  StatusCode 0 and no Error.
\<close>

theorem error_iff_status_zero_counterexample:
  "runLoadTest lim48 cfg1 sched_zero = Some after_zero \<and>
   chan_buf (results after_zero) = [worker_result (Response 0 7)] \<and>
   \<not> (Error (worker_result (Response 0 7)) \<noteq> None \<longleftrightarrow>
      StatusCode (worker_result (Response 0 7)) = 0)"
  using run_zero by (simp add: after_zero_def)

lemma worker_result_status: "status_zero_on_error (worker_result out)"
  by (cases out) (simp_all add: status_zero_on_error_def)

lemma Sending_update:
  "Sending r \<in> set (ws[k := pc]) \<Longrightarrow> Sending r \<in> set ws \<or> pc = Sending r"
  using set_update_subset_insert [of ws k pc] by auto

lemma step_results_inv:
  assumes "results_inv s" "step cfg e s = Some s'"
  shows "results_inv s'"
proof (cases e)
  case (Main t)
  then have "main_step cfg t s = Some s'" using assms(2) by (simp add: step_def split: if_splits)
  then show ?thesis
  proof (cases rule: main_step_cases)
    case (recv i r c)
    then show ?thesis
      using assms(1) chan_recv_Received [OF recv(3)]
      by (simp add: results_inv_def collect_one_def)
  next
    case (close c)
    then show ?thesis
      using assms(1) chan_close_Some [OF close(2)] by (simp add: results_inv_def)
  qed (use assms(1) in \<open>simp_all add: results_inv_def collect_one_def\<close>)
next
  case Producer
  then have "producer_step cfg s = Some s'" using assms(2) by (simp add: step_def split: if_splits)
  then show ?thesis
    by (cases rule: producer_step_cases) (use assms(1) in \<open>simp_all add: results_inv_def\<close>)
next
  case (Worker k ev)
  then have "worker_step k ev s = Some s'" using assms(2) by (simp add: step_def split: if_splits)
  then show ?thesis
  proof (cases rule: worker_step_cases)
    case (http out)
    then show ?thesis
      using assms(1) worker_result_status [of out]
      by (auto simp: results_inv_def dest!: Sending_update)
  next
    case (send r c)
    have "Sending r \<in> set (workers s)" using send(1,2) nth_mem by metis
    then show ?thesis
      using assms(1) chan_send_Sent [OF send(3)]
      by (auto simp: send(4) results_inv_def dest!: Sending_update)
  qed (use assms(1) in \<open>auto simp: results_inv_def worker_return_def dest!: Sending_update\<close>)
qed

lemma run_results_inv: "results_inv s \<Longrightarrow> run cfg es s = Some s' \<Longrightarrow> results_inv s'"
proof (induction es arbitrary: s)
  case Nil
  then show ?case by simp
next
  case (Cons e es)
  from Cons.prems(2) obtain s1 where s1: "step cfg e s = Some s1" and r: "run cfg es s1 = Some s'"
    by (auto split: option.splits)
  have "results_inv s1" using Cons.prems(1) s1 by (rule step_results_inv)
  then show ?case using r by (rule Cons.IH)
qed

lemma runLoadTest_results_inv:
  assumes "runLoadTest lim cfg es = Some s"
  shows "results_inv s"
proof -
  have "results_inv (init cfg)" by (simp add: results_inv_def init_def state0_def new_chan_def)
  then show ?thesis using runLoadTest_run [OF assms] by (rule run_results_inv)
qed

text \<open>
  C4, amended: on both failure paths the Result has Error present and
  StatusCode 0; on the response path Error is absent and StatusCode is the status
  code of the response. So Error present implies StatusCode 0, and the converse
  holds for every outcome but a response with status code 0. In every state of
  every run, each Result in the result channel and each Result a worker is
  about to send has StatusCode 0 if its Error is present.
\<close>

theorem error_implies_status_zero:
  "(Error (worker_result out) \<noteq> None \<longrightarrow> StatusCode (worker_result out) = 0) \<and>
   (\<forall>err d. out = NewRequestFailed err d \<or> out = DoFailed err d \<longrightarrow>
      Error (worker_result out) = Some err \<and> StatusCode (worker_result out) = 0) \<and>
   (\<forall>code d. out = Response code d \<longrightarrow>
      Error (worker_result out) = None \<and> StatusCode (worker_result out) = code) \<and>
   ((\<forall>d. out \<noteq> Response 0 d) \<longrightarrow>
      (Error (worker_result out) \<noteq> None \<longleftrightarrow> StatusCode (worker_result out) = 0)) \<and>
   (\<forall>lim cfg es s r. runLoadTest lim cfg es = Some s \<longrightarrow>
      r \<in> set (chan_buf (results s)) \<or> Sending r \<in> set (workers s) \<longrightarrow>
      Error r \<noteq> None \<longrightarrow> StatusCode r = 0)"
proof -
  have "StatusCode r = 0"
    if "runLoadTest lim cfg es = Some s" "Error r \<noteq> None"
      "r \<in> set (chan_buf (results s)) \<or> Sending r \<in> set (workers s)" for lim cfg es s r
    using runLoadTest_results_inv [OF that(1)] that(2,3)
    by (auto simp: results_inv_def status_zero_on_error_def)
  then have run: "\<forall>lim cfg es s r. runLoadTest lim cfg es = Some s \<longrightarrow>
      r \<in> set (chan_buf (results s)) \<or> Sending r \<in> set (workers s) \<longrightarrow>
      Error r \<noteq> None \<longrightarrow> StatusCode r = 0"
    by blast
  have "(Error (worker_result out) \<noteq> None \<longrightarrow> StatusCode (worker_result out) = 0) \<and>
   (\<forall>err d. out = NewRequestFailed err d \<or> out = DoFailed err d \<longrightarrow>
      Error (worker_result out) = Some err \<and> StatusCode (worker_result out) = 0) \<and>
   (\<forall>code d. out = Response code d \<longrightarrow>
      Error (worker_result out) = None \<and> StatusCode (worker_result out) = code) \<and>
   ((\<forall>d. out \<noteq> Response 0 d) \<longrightarrow>
      (Error (worker_result out) \<noteq> None \<longleftrightarrow> StatusCode (worker_result out) = 0))"
    by (cases out) auto
  then show ?thesis using run by (intro conjI) (elim conjE, assumption)+
qed

theorem error_implies_status_zero_witness:
  "Error (worker_result (DoFailed ''timeout'' 30)) \<noteq> None \<and>
   StatusCode (worker_result (DoFailed ''timeout'' 30)) = 0 \<and>
   StatusCode (worker_result (Response 503 4)) \<noteq> 0 \<and>
   Error (worker_result (Response 503 4)) = None"
proof -
  have a: "Error (worker_result (DoFailed ''timeout'' 30)) = Some ''timeout'' \<and>
      StatusCode (worker_result (DoFailed ''timeout'' 30)) = 0"
    using error_implies_status_zero [of "DoFailed ''timeout'' 30"] by blast
  have b: "Error (worker_result (Response 503 4)) = None \<and>
      StatusCode (worker_result (Response 503 4)) = 503"
    using error_implies_status_zero [of "Response 503 4"] by blast
  show ?thesis using a b by auto
qed

section \<open>Error before status code\<close>

text \<open>
  C10. A Result whose Error is present is counted at key 0 and never as a
  success, whatever its StatusCode: the count at key 0 grows by one, every other
  count (that of key 200 too) and SuccessRequests stay as they were. The witness
  is a Result with an Error and StatusCode 200.
\<close>

theorem error_takes_precedence:
  assumes "Error r \<noteq> None"
  shows "map_get (StatusCodes (aggregate rep r)) 0 = map_get (StatusCodes rep) 0 + 1 \<and>
    SuccessRequests (aggregate rep r) = SuccessRequests rep \<and>
    (\<forall>k. k \<noteq> 0 \<longrightarrow> map_get (StatusCodes (aggregate rep r)) k = map_get (StatusCodes rep) k)"
  using assms by (simp add: aggregate_def Let_def map_get_incr)

theorem error_takes_precedence_witness:
  "Error \<lparr>StatusCode = 200, Duration = 1, Error = Some ''reset''\<rparr> \<noteq> None \<and>
   map_get (StatusCodes (aggregate new_report
      \<lparr>StatusCode = 200, Duration = 1, Error = Some ''reset''\<rparr>)) 0 = 1 \<and>
   map_get (StatusCodes (aggregate new_report
      \<lparr>StatusCode = 200, Duration = 1, Error = Some ''reset''\<rparr>)) 200 = 0 \<and>
   SuccessRequests (aggregate new_report
      \<lparr>StatusCode = 200, Duration = 1, Error = Some ''reset''\<rparr>) = 0"
proof -
  let ?r = "\<lparr>StatusCode = 200, Duration = 1, Error = Some ''reset''\<rparr>"
  have e: "Error ?r \<noteq> None" by simp
  have z: "map_get (StatusCodes new_report) 0 = 0" "map_get (StatusCodes new_report) 200 = 0"
    "SuccessRequests new_report = 0"
    by (simp_all add: new_report_def map_get_def)
  show ?thesis using error_takes_precedence [OF e, of new_report] z e by simp
qed

section \<open>Configuration\<close>

lemma parseFlags_Inr:
  "parseFlags url r c = Inr cfg \<longleftrightarrow>
   url \<noteq> [] \<and> 0 < r \<and> 0 < c \<and> cfg = \<lparr>URL = url, Requests = r, Concurrency = min c r\<rparr>"
  by (auto simp: parseFlags_def min_def)

lemma parseFlags_valid: "parseFlags url r c = Inr cfg \<Longrightarrow> valid cfg"
  by (auto simp: parseFlags_Inr valid_def)

text \<open>
  C5. parseFlags returns an error exactly when the URL is empty or Requests or
  Concurrency is not positive. On an error main returns it without calling
  runLoadTest: under no schedule is there a state of a run, so no worker, no
  ticket and no HTTP call. Otherwise parseFlags returns a Config with the given
  URL and Requests, which is valid, and main runs runLoadTest on it.
\<close>

theorem parseFlags_error_iff:
  "((\<exists>err. parseFlags url r c = Inl err) \<longleftrightarrow> url = [] \<or> r \<le> 0 \<or> c \<le> 0) \<and>
   (\<forall>err. parseFlags url r c = Inl err \<longrightarrow> (\<forall>es. main_go lim url r c es = Inl err)) \<and>
   ((\<exists>cfg. parseFlags url r c = Inr cfg) \<longleftrightarrow> \<not> (url = [] \<or> r \<le> 0 \<or> c \<le> 0)) \<and>
   (\<forall>cfg. parseFlags url r c = Inr cfg \<longrightarrow>
      URL cfg = url \<and> Requests cfg = r \<and> valid cfg \<and>
      (\<forall>es. main_go lim url r c es = Inr (runLoadTest lim cfg es)))"
  by (auto simp: parseFlags_def main_go_def valid_def)

theorem parseFlags_error_iff_witness:
  "(\<exists>err. parseFlags ''http://localhost:8080'' 0 5 = Inl err) \<and>
   (\<exists>err. parseFlags ''http://localhost:8080'' 10 0 = Inl err) \<and>
   (\<exists>err. parseFlags [] 10 5 = Inl err) \<and>
   (\<exists>cfg. parseFlags ''http://localhost:8080'' 10 5 = Inr cfg)"
  using parseFlags_error_iff [of "''http://localhost:8080''" 0 5]
    parseFlags_error_iff [of "''http://localhost:8080''" 10 0]
    parseFlags_error_iff [of "[]" 10 5]
    parseFlags_error_iff [of "''http://localhost:8080''" 10 5]
  by simp

text \<open>
  C6. For a configuration that parseFlags accepts, the Concurrency it returns is
  the minimum of the configured Concurrency and Requests, and in every state of
  every run the number of workers started is at most that minimum and is equal
  to it once the loop that starts them is over. With Requests 1 and
  Concurrency 5 it is 1.
\<close>

theorem workers_started_at_most_min:
  assumes "parseFlags url r c = Inr cfg" "runLoadTest lim cfg es = Some s"
  shows "Concurrency cfg = min c r \<and>
    int (length (workers s)) \<le> min c r \<and>
    ((\<exists>n. mainpc s = SpawnWorkers n \<and> int (length (workers s)) = n) \<or>
      int (length (workers s)) = min c r)"
proof -
  have c: "Concurrency cfg = min c r" using assms(1) by (simp add: parseFlags_Inr)
  have "invariant cfg s" using parseFlags_valid [OF assms(1)] assms(2) by (rule runLoadTest_inv)
  then have "main_inv cfg s" by (simp add: invariant_def)
  then show ?thesis using c by (cases "mainpc s") (simp_all add: main_inv_def)
qed

theorem workers_started_at_most_min_witness:
  "parseFlags ''http://localhost:8080'' 1 5 = Inr cfg1 \<and>
   runLoadTest lim48 cfg1 sched1 = Some final1 \<and>
   Concurrency cfg1 = 1 \<and> length (workers final1) = 1"
proof -
  have p: "parseFlags ''http://localhost:8080'' 1 5 = Inr cfg1"
    by (simp add: parseFlags_def cfg1_def)
  have m: "\<forall>n. mainpc final1 \<noteq> SpawnWorkers n" by (simp add: final1_def)
  show ?thesis using workers_started_at_most_min [OF p run1] p run1 m by simp
qed

section \<open>Consequences of the invariants\<close>

lemma all_returned:
  assumes "running s = 0" "k < length (workers s)"
  shows "workers s ! k = Returned"
  using live_le_running [OF assms(2)] assms(1) by (cases "workers s ! k") simp_all

lemma cancelled_done:
  assumes "main_inv cfg s" "cancelled s"
  shows "TotalRequests (report s) = Requests cfg"
  using assms by (cases "mainpc s") (simp_all add: main_inv_def)

lemma results_closed_joined:
  assumes "main_inv cfg s" "mainpc s = CloseResults \<or> chan_closed (results s)"
  shows "cancelled s \<and> wg s = 0"
  using assms by (cases "mainpc s") (simp_all add: main_inv_def)




text \<open>When all results are collected, nothing is left anywhere.\<close>

lemma drained:
  assumes v: "valid cfg" and i: "invariant cfg s" and t: "TotalRequests (report s) = Requests cfg"
  shows "chan_buf (results s) = [] \<and> in_flight s = 0 \<and> chan_buf (jobs s) = [] \<and>
    int (length (jobs_sent s)) = Requests cfg"
proof -
  from i have pi: "producer_inv cfg s" and ci: "count_inv cfg s" by (simp_all add: invariant_def)
  have "int (length (jobs_sent s)) \<le> Requests cfg" using v pi by (rule jobs_sent_le)
  moreover have "length (jobs_sent s) = results_sent s + in_flight s + length (chan_buf (jobs s))"
    using ci by (simp add: count_inv_def)
  moreover have "int (results_sent s) = int (length (chan_buf (results s))) + Requests cfg"
    using ci t by (simp add: count_inv_def)
  ultimately have "length (chan_buf (results s)) = 0 \<and> in_flight s = 0 \<and>
      length (chan_buf (jobs s)) = 0 \<and> int (length (jobs_sent s)) = Requests cfg"
    by linarith
  then show ?thesis by simp
qed



lemma go_rem_nonneg: "0 \<le> a \<Longrightarrow> go_rem a 100 = a mod 100"
  by (simp add: go_rem_def)

lemma progress_lines:
  "0 \<le> n \<Longrightarrow>
   concat (map (progress cfg) [0..n - 1]) =
   map (\<lambda>m. progress_line m (Requests cfg))
     (filter (\<lambda>m. m mod 100 = 0 \<or> m = Requests cfg) [1..n])"
proof (induction n rule: int_ge_induct)
  case base
  then show ?case by simp
next
  case (step n)
  have a: "[0..n + 1 - 1] = [0..n - 1] @ [n]" using step.hyps upto_rec2 [of 0 n] by simp
  have b: "[1..n + 1] = [1..n] @ [n + 1]" using step.hyps upto_rec2 [of 1 "n + 1"] by simp
  show ?case
    unfolding a b using step.IH step.hyps by (simp add: progress_def go_rem_nonneg)
qed

section \<open>Progress notifications\<close>

text \<open>
  C8. In every state of every run on a valid configuration, what runLoadTest
  has printed is its header followed by one line
  \<open>Progress: n/Requests requests completed\<close> for each number \<open>n\<close> of completed
  results so far that is a multiple of 100 or equal to Requests, in increasing
  order of \<open>n\<close>, and nothing else; so the last line printed by a finished
  loop is the one for \<open>n = Requests\<close>.
\<close>

theorem progress_every_100_and_at_end:
  assumes "valid cfg" "runLoadTest lim cfg es = Some s"
  shows "stdout s =
      header cfg @
      map (\<lambda>n. progress_line n (Requests cfg))
        (filter (\<lambda>n. n mod 100 = 0 \<or> n = Requests cfg) [1..TotalRequests (report s)]) \<and>
    (\<forall>n. progress_line n (Requests cfg) =
       ''Progress: '' @ fmt_d n @ ''/'' @ fmt_d (Requests cfg) @ '' requests completed'' @ newline) \<and>
    (TotalRequests (report s) = Requests cfg \<longrightarrow>
       last (stdout s) = progress_line (Requests cfg) (Requests cfg))"
proof -
  have i: "invariant cfg s" using assms by (rule runLoadTest_inv)
  then have mi: "main_inv cfg s" and si: "stdout_inv cfg s" by (simp_all add: invariant_def)
  have n: "0 \<le> TotalRequests (report s)" using assms(1) mi by (rule TotalRequests_nonneg)
  have out: "stdout s =
      header cfg @
      map (\<lambda>n. progress_line n (Requests cfg))
        (filter (\<lambda>n. n mod 100 = 0 \<or> n = Requests cfg) [1..TotalRequests (report s)])"
    using si progress_lines [OF n] by (simp add: stdout_inv_def)
  have "last (stdout s) = progress_line (Requests cfg) (Requests cfg)"
    if t: "TotalRequests (report s) = Requests cfg"
  proof -
    have "0 < Requests cfg" using assms(1) by (simp add: valid_def)
    then have "[1..Requests cfg] = [1..Requests cfg - 1] @ [Requests cfg]"
      using upto_rec2 [of 1 "Requests cfg"] by simp
    then show ?thesis using out t by simp
  qed
  then show ?thesis using out by (simp add: progress_line_def)
qed

theorem progress_every_100_and_at_end_witness:
  "valid cfg2 \<and> runLoadTest lim48 cfg2 sched2 = Some final2 \<and>
   stdout final2 = header cfg2 @ [progress_line 2 2]"
proof -
  have t: "TotalRequests (report final2) = 2" by (simp add: final2_def)
  have r: "Requests cfg2 = 2" by (simp add: cfg2_def)
  have "stdout final2 =
      header cfg2 @
      map (\<lambda>n. progress_line n (Requests cfg2))
        (filter (\<lambda>n. n mod 100 = 0 \<or> n = Requests cfg2) [1..TotalRequests (report final2)])"
    using progress_every_100_and_at_end [OF valid2 run2] by blast
  then show ?thesis using valid2 run2 by (simp add: t r upto.simps)
qed

section \<open>Shutdown\<close>

text \<open>
  C9. In every state of every run on a valid configuration: no goroutine has
  panicked (a send on a closed channel would be a panic); the context is
  cancelled only when all Requests results have been collected, the result
  channel is empty and no worker holds a ticket; runLoadTest is at
  \<open>close(results)\<close>, or has closed the channel, only when the context is
  cancelled, the wait group is at zero and every worker has returned; and once
  the channel is closed no worker can take a send step on it.
\<close>

theorem no_send_after_close:
  assumes "valid cfg" "runLoadTest lim cfg es = Some s"
  shows "\<not> panicked s \<and>
    (cancelled s \<longrightarrow>
       TotalRequests (report s) = Requests cfg \<and> chan_buf (results s) = [] \<and> in_flight s = 0) \<and>
    (mainpc s = CloseResults \<or> chan_closed (results s) \<longrightarrow>
       cancelled s \<and> wg s = 0 \<and> (\<forall>k < length (workers s). workers s ! k = Returned)) \<and>
    (chan_closed (results s) \<longleftrightarrow> mainpc s = Finished) \<and>
    (chan_closed (results s) \<longrightarrow> (\<forall>k. worker_step k Send s = None))"
proof -
  have i: "invariant cfg s" using assms by (rule runLoadTest_inv)
  then have mi: "main_inv cfg s" and ci: "count_inv cfg s" by (simp_all add: invariant_def)
  have np: "\<not> panicked s" using ci by (simp add: count_inv_def)
  have canc: "cancelled s \<longrightarrow>
       TotalRequests (report s) = Requests cfg \<and> chan_buf (results s) = [] \<and> in_flight s = 0"
    using cancelled_done [OF mi] drained [OF assms(1) i] by blast
  have joined: "cancelled s \<and> wg s = 0 \<and> (\<forall>k < length (workers s). workers s ! k = Returned)"
    if c: "mainpc s = CloseResults \<or> chan_closed (results s)"
  proof -
    have cw: "cancelled s \<and> wg s = 0" using mi c by (rule results_closed_joined)
    then have "running s = 0" using ci by (simp add: count_inv_def)
    then show ?thesis using cw all_returned by blast
  qed
  have fin: "chan_closed (results s) \<longleftrightarrow> mainpc s = Finished"
    using mi by (cases "mainpc s") (simp_all add: main_inv_def)
  have nosend: "worker_step k Send s = None" if c: "chan_closed (results s)" for k
  proof (cases "k < length (workers s)")
    case True
    then have "workers s ! k = Returned" using joined c by blast
    then show ?thesis using True by (simp add: worker_step_def)
  next
    case False
    then show ?thesis by (simp add: worker_step_def)
  qed
  show ?thesis using np canc joined fin nosend by blast
qed

theorem no_send_after_close_witness:
  "valid cfg2 \<and> runLoadTest lim48 cfg2 sched2 = Some final2 \<and>
   \<not> panicked final2 \<and> wg final2 = 0 \<and> workers final2 ! 0 = Returned \<and>
   workers final2 ! 1 = Returned \<and> worker_step 1 Send final2 = None"
proof -
  have c: "chan_closed (results final2)" by (simp add: final2_def)
  have l: "0 < length (workers final2)" "1 < length (workers final2)" by (simp_all add: final2_def)
  show ?thesis
    using no_send_after_close [OF valid2 run2] valid2 run2 c l by simp
qed

section \<open>The tickets in the channel\<close>







lemma fit1: "channels_fit lim48 cfg1"
  by (simp add: channels_fit_def lim48_def cfg1_def Result_bytes_def)



section \<open>The aggregation loop collects every result\<close>




section \<open>The job source\<close>





end
